theory Spec2Isabelle
  imports Complex_Main
begin

section \<open>Floating-point values\<close>

text \<open>
  The simulation computes with C \<^verbatim>\<open>float\<close> values. A value is a finite real, one of
  the two infinities, or NaN. The special values follow IEEE 754 (what \<^verbatim>\<open>x != x\<close>,
  \<^verbatim>\<open>10 / 0\<close> and \<^verbatim>\<open>sqrt\<close> of a negative number give); arithmetic on finite values is
  exact, so rounding and overflow to infinity are left out, and zero carries no
  sign (a zero divisor counts as \<^verbatim>\<open>+0\<close>, which is what \<^verbatim>\<open>sqrt\<close> and \<^verbatim>\<open>magnitude\<close>
  return). The one sum whose rounding is modelled is the position that the spawner
  stores (\<open>fadd32\<close>).
\<close>

datatype flt = Fin real | PInf | NInf | NaN

fun fsgn :: "flt \<Rightarrow> real" where
  "fsgn (Fin a) = sgn a"
| "fsgn PInf = 1"
| "fsgn NInf = - 1"
| "fsgn NaN = 0"

definition inf_of :: "real \<Rightarrow> flt" where
  \<comment> \<open>the infinity of the given sign; NaN where the sign is undetermined\<close>
  "inf_of s = (if s = 0 then NaN else if 0 < s then PInf else NInf)"

fun fneg :: "flt \<Rightarrow> flt" where
  "fneg (Fin a) = Fin (- a)"
| "fneg PInf = NInf"
| "fneg NInf = PInf"
| "fneg NaN = NaN"

fun fadd :: "flt \<Rightarrow> flt \<Rightarrow> flt" where
  "fadd (Fin a) (Fin b) = Fin (a + b)"
| "fadd NaN _ = NaN"
| "fadd _ NaN = NaN"
| "fadd PInf NInf = NaN"
| "fadd NInf PInf = NaN"
| "fadd PInf _ = PInf"
| "fadd _ PInf = PInf"
| "fadd NInf _ = NInf"
| "fadd _ NInf = NInf"

definition fsub :: "flt \<Rightarrow> flt \<Rightarrow> flt" where
  "fsub a b = fadd a (fneg b)"

fun fmul :: "flt \<Rightarrow> flt \<Rightarrow> flt" where
  "fmul (Fin a) (Fin b) = Fin (a * b)"
| "fmul NaN _ = NaN"
| "fmul _ NaN = NaN"
| "fmul a b = inf_of (fsgn a * fsgn b)"

fun fdiv :: "flt \<Rightarrow> flt \<Rightarrow> flt" where
  "fdiv (Fin a) (Fin b) = (if b = 0 then inf_of (sgn a) else Fin (a / b))"
| "fdiv NaN _ = NaN"
| "fdiv _ NaN = NaN"
| "fdiv (Fin a) _ = Fin 0"
| "fdiv a (Fin b) = inf_of (fsgn a * (if b < 0 then - 1 else 1))"
| "fdiv _ _ = NaN"

fun fsqrt :: "flt \<Rightarrow> flt" where
  "fsqrt (Fin a) = (if a < 0 then NaN else Fin (sqrt a))"
| "fsqrt PInf = PInf"
| "fsqrt NInf = NaN"
| "fsqrt NaN = NaN"

definition fpow2 :: "flt \<Rightarrow> flt" where
  \<comment> \<open>\<^verbatim>\<open>pow(x, 2)\<close>\<close>
  "fpow2 a = fmul a a"

fun fsin :: "flt \<Rightarrow> flt" where
  "fsin (Fin a) = Fin (sin a)"
| "fsin _ = NaN"

fun fcos :: "flt \<Rightarrow> flt" where
  "fcos (Fin a) = Fin (cos a)"
| "fcos _ = NaN"

fun fless :: "flt \<Rightarrow> flt \<Rightarrow> bool" where
  \<comment> \<open>\<^verbatim>\<open>a < b\<close>: false as soon as one side is NaN\<close>
  "fless (Fin a) (Fin b) = (a < b)"
| "fless NaN _ = False"
| "fless _ NaN = False"
| "fless NInf NInf = False"
| "fless NInf _ = True"
| "fless PInf _ = False"
| "fless _ PInf = True"
| "fless _ _ = False"



section \<open>Vectors and stars\<close>

text \<open>
  Modelled from the spec: the class \<^verbatim>\<open>vec2d\<close> (\<^verbatim>\<open>vec2d.hh\<close>) is not among the sources.
  The spec uses it as a pair of floats with componentwise sum and difference,
  scaling by a float, the Euclidean length (\<^verbatim>\<open>magnitude\<close>) and the unit vector
  (\<^verbatim>\<open>normalized\<close>, undefined at length 0). This holds for the type and for its
  operations, from \<open>vadd\<close> to \<open>vdot\<close>.
\<close>

datatype vec2d = vec2d (vx: flt) (vy: flt)

definition vadd :: "vec2d \<Rightarrow> vec2d \<Rightarrow> vec2d" where
  "vadd a b = vec2d (fadd (vx a) (vx b)) (fadd (vy a) (vy b))"

definition vsub :: "vec2d \<Rightarrow> vec2d \<Rightarrow> vec2d" where
  "vsub a b = vec2d (fsub (vx a) (vx b)) (fsub (vy a) (vy b))"

definition vneg :: "vec2d \<Rightarrow> vec2d" where
  "vneg a = vec2d (fneg (vx a)) (fneg (vy a))"

definition vscale :: "vec2d \<Rightarrow> flt \<Rightarrow> vec2d" where
  \<comment> \<open>\<^verbatim>\<open>v * s\<close>\<close>
  "vscale a s = vec2d (fmul (vx a) s) (fmul (vy a) s)"

definition vdiv :: "vec2d \<Rightarrow> flt \<Rightarrow> vec2d" where
  \<comment> \<open>\<^verbatim>\<open>v / s\<close>\<close>
  "vdiv a s = vec2d (fdiv (vx a) s) (fdiv (vy a) s)"

definition magnitude :: "vec2d \<Rightarrow> flt" where
  "magnitude a = fsqrt (fadd (fpow2 (vx a)) (fpow2 (vy a)))"

definition normalized :: "vec2d \<Rightarrow> vec2d" where
  "normalized a = vdiv a (magnitude a)"

definition vdot :: "vec2d \<Rightarrow> vec2d \<Rightarrow> flt" where
  "vdot a b = fadd (fmul (vx a) (vx b)) (fmul (vy a) (vy b))"

text \<open>
  Modelled from the spec: the class \<^verbatim>\<open>star\<close> (\<^verbatim>\<open>star.hh\<close>) is not among the sources.
  The spec gives its state as position, velocity, mass and the force accumulated in
  the current round. The colour, which only the drawing code reads, is left out.
\<close>

record star =
  mass :: flt
  pos :: vec2d
  vel :: vec2d
  force :: vec2d

definition new_star :: "flt \<Rightarrow> vec2d \<Rightarrow> vec2d \<Rightarrow> star" where
  \<comment> \<open>the constructor \<^verbatim>\<open>star(mass, pos, vel, color)\<close>: no force accumulated yet\<close>
  "new_star m p v = \<lparr>mass = m, pos = p, vel = v, force = vec2d (Fin 0) (Fin 0)\<rparr>"

section \<open>The validity check of the frame loop\<close>

definition erase :: "nat \<Rightarrow> 'a list \<Rightarrow> 'a list" where
  \<comment> \<open>\<^verbatim>\<open>v.erase(v.begin() + i)\<close> at a valid index\<close>
  "erase i xs = take i xs @ drop (Suc i) xs"





section \<open>The collision merger\<close>

text \<open>
  Modelled from the spec: \<^verbatim>\<open>star::merge\<close> (\<^verbatim>\<open>star.hh\<close>) is not among the sources. By the
  merge rule of the spec the merged star has the sum of the masses, the
  momentum-conserving velocity \<^verbatim>\<open>(mA*vA + mB*vB) / (mA + mB)\<close> and the position of the
  input of larger mass, the first star winning a tie. It is a new star, so no force is
  accumulated on it.
\<close>

definition merge :: "star \<Rightarrow> star \<Rightarrow> star" where
  "merge a b =
     new_star (fadd (mass a) (mass b))
       (if fless (mass a) (mass b) then pos b else pos a)
       (vdiv (vadd (vscale (vel a) (mass a)) (vscale (vel b) (mass b)))
          (fadd (mass a) (mass b)))"

text \<open>
  Modelled from the spec: \<^verbatim>\<open>star::radius\<close> (\<^verbatim>\<open>star.hh\<close>) is not among the sources. The
  spec makes the radius a function of the mass alone and leaves the function itself
  open, so the function \<open>rad\<close> from mass to radius is a parameter of the model.
\<close>

definition radius :: "(flt \<Rightarrow> flt) \<Rightarrow> star \<Rightarrow> flt" where
  "radius rad s = rad (mass s)"

definition overlap :: "(flt \<Rightarrow> flt) \<Rightarrow> star \<Rightarrow> star \<Rightarrow> bool" where
  \<comment> \<open>the test of \<^verbatim>\<open>updateStars\<close>, lines 172-179\<close>
  "overlap rad a b =
     fless (magnitude (vsub (pos a) (pos b))) (fadd (radius rad a) (radius rad b))"

text \<open>The loop over \<open>j\<close> of \<^verbatim>\<open>updateStars\<close>: after a merge \<open>j\<close> is decremented and
  incremented again, so the entry that moved to index \<open>j\<close> is tested next.\<close>

function updateStars_inner :: "(flt \<Rightarrow> flt) \<Rightarrow> nat \<Rightarrow> nat \<Rightarrow> star list \<Rightarrow> star list" where
  "updateStars_inner rad i j stars =
     (if j < length stars then
        (if overlap rad (stars ! i) (stars ! j)
         then updateStars_inner rad i j (erase j (stars[i := merge (stars ! i) (stars ! j)]))
         else updateStars_inner rad i (Suc j) stars)
      else stars)"
  by pat_completeness auto
termination
  by (relation "measure (\<lambda>(rad, i, j, stars). length stars - j)") (auto simp: erase_def)

declare updateStars_inner.simps [simp del]

lemma length_updateStars_inner:
  "length (updateStars_inner rad i j stars) \<le> length stars"
proof (induction rad i j stars rule: updateStars_inner.induct)
  case (1 rad i j stars)
  show ?case
  proof (cases "j < length stars")
    case False
    then show ?thesis by (subst updateStars_inner.simps) simp
  next
    case True
    show ?thesis
    proof (cases "overlap rad (stars ! i) (stars ! j)")
      case ov: True
      have "length (erase j (stars[i := merge (stars ! i) (stars ! j)])) \<le> length stars"
        by (simp add: erase_def)
      with 1(1)[OF True ov] show ?thesis
        using True ov by (subst updateStars_inner.simps) simp
    next
      case False
      with 1(2)[OF True False] show ?thesis
        using True by (subst updateStars_inner.simps) simp
    qed
  qed
qed

text \<open>The loop over \<open>i\<close> of \<^verbatim>\<open>updateStars\<close>.\<close>

function updateStars_outer :: "(flt \<Rightarrow> flt) \<Rightarrow> nat \<Rightarrow> star list \<Rightarrow> star list" where
  "updateStars_outer rad i stars =
     (if i < length stars
      then updateStars_outer rad (Suc i) (updateStars_inner rad i (Suc i) stars)
      else stars)"
  by pat_completeness auto
termination
proof (relation "measure (\<lambda>(rad, i, stars). length stars - i)")
  show "wf (measure (\<lambda>(rad, i, stars). length stars - i))" by simp
next
  fix rad :: "flt \<Rightarrow> flt" and i :: nat and stars :: "star list"
  assume "i < length stars"
  moreover have "length (updateStars_inner rad i (Suc i) stars) \<le> length stars"
    by (rule length_updateStars_inner)
  ultimately show "((rad, Suc i, updateStars_inner rad i (Suc i) stars), (rad, i, stars))
      \<in> measure (\<lambda>(rad, i, stars). length stars - i)"
    by simp
qed

declare updateStars_outer.simps [simp del]

definition updateStars_merge :: "(flt \<Rightarrow> flt) \<Rightarrow> star list \<Rightarrow> star list" where
  \<comment> \<open>the merge phase of \<^verbatim>\<open>updateStars\<close>, lines 169-187\<close>
  "updateStars_merge rad stars = updateStars_outer rad 0 stars"






section \<open>The worker threads\<close>

definition G :: flt where
  \<comment> \<open>\<^verbatim>\<open>#define G 1\<close>\<close>
  "G = Fin 1"

definition DT :: flt where
  \<comment> \<open>\<^verbatim>\<open>#define DT 0.04\<close>\<close>
  "DT = Fin (4 / 100)"

definition NUM_WORKER_THREADS :: nat where
  "NUM_WORKER_THREADS = 4"

text \<open>
  Modelled from the spec: \<^verbatim>\<open>star::addForce\<close> (\<^verbatim>\<open>star.hh\<close>) is not among the sources. It
  adds the given force to the force accumulated on the star.
\<close>

definition addForce :: "star \<Rightarrow> vec2d \<Rightarrow> star" where
  "addForce s f = s\<lparr>force := vadd (force s) f\<rparr>"

text \<open>
  Modelled from the spec: \<^verbatim>\<open>star::update\<close> (\<^verbatim>\<open>star.hh\<close>) is not among the sources. It
  is the semi-implicit Euler step of the spec: the velocity gains
  \<^verbatim>\<open>accumulated_force / mass * dt\<close>, the position moves by the new velocity times
  \<^verbatim>\<open>dt\<close>, and the accumulated force is reset.
\<close>

definition update :: "star \<Rightarrow> flt \<Rightarrow> star" where
  "update s dt =
     (let v = vadd (vel s) (vscale (vdiv (force s) (mass s)) dt)
      in s\<lparr>vel := v, pos := vadd (pos s) (vscale v dt), force := vec2d (Fin 0) (Fin 0)\<rparr>)"

definition pair_force :: "star \<Rightarrow> star \<Rightarrow> vec2d" where
  \<comment> \<open>the force on \<open>a = stars[i]\<close> from \<open>b = stars[j]\<close>, \<^verbatim>\<open>thread_fn\<close> lines 207-220\<close>
  "pair_force a b =
     (let m1 = mass a; m2 = mass b;
          diff = vsub (pos a) (pos b);
          dist = magnitude diff;
          diff = normalized diff
      in vdiv (vscale (vscale (vscale (vneg diff) G) m1) m2) (fpow2 dist))"

text \<open>The loop over \<open>j\<close> of \<^verbatim>\<open>thread_fn\<close>, for the star at index \<open>i\<close>.\<close>

function thread_fn_inner :: "nat \<Rightarrow> nat \<Rightarrow> star list \<Rightarrow> star list" where
  "thread_fn_inner i j stars =
     (if j < length stars then
        (if i = j then thread_fn_inner i (Suc j) stars
         else thread_fn_inner i (Suc j)
                (stars[i := addForce (stars ! i) (pair_force (stars ! i) (stars ! j))]))
      else stars)"
  by pat_completeness auto
termination
  by (relation "measure (\<lambda>(i, j, stars). length stars - j)") auto

declare thread_fn_inner.simps [simp del]

text \<open>The loop over \<open>i\<close> of \<^verbatim>\<open>thread_fn\<close>, run by the worker that read \<open>num\<close> as its
  number: one round between two arrivals at the barrier.\<close>

function thread_fn_round :: "nat \<Rightarrow> nat \<Rightarrow> star list \<Rightarrow> star list" where
  "thread_fn_round num i stars =
     (if i < length stars then
        (if i mod NUM_WORKER_THREADS = num
         then thread_fn_round num (Suc i)
                (let stars' = thread_fn_inner i 0 stars in stars'[i := update (stars' ! i) DT])
         else thread_fn_round num (Suc i) stars)
      else stars)"
  by pat_completeness auto

definition contributions :: "nat \<Rightarrow> nat \<Rightarrow> star list \<Rightarrow> vec2d list" where
  \<comment> \<open>the forces on star \<open>i\<close> from the stars at the indices from \<open>j\<close> on, in loop order\<close>
  "contributions i j stars =
     map (\<lambda>k. pair_force (stars ! i) (stars ! k)) (filter (\<lambda>k. k \<noteq> i) [j..<length stars])"

lemma pair_force_addForce [simp]: "pair_force (addForce s f) t = pair_force s t"
  by (simp add: pair_force_def addForce_def)

lemma thread_fn_inner_accumulates:
  "i < length stars \<Longrightarrow>
   thread_fn_inner i j stars =
     stars[i := (stars ! i)\<lparr>force := foldl vadd (force (stars ! i)) (contributions i j stars)\<rparr>]"
proof (induction i j stars rule: thread_fn_inner.induct)
  case (1 i j stars)
  show ?case
  proof (cases "j < length stars")
    case False
    then have "contributions i j stars = []" by (simp add: contributions_def)
    then show ?thesis
      using False by (subst thread_fn_inner.simps) simp
  next
    case True
    then have up: "[j..<length stars] = j # [Suc j..<length stars]"
      by (simp add: upt_conv_Cons)
    show ?thesis
    proof (cases "i = j")
      case True
      have "contributions i j stars = contributions i (Suc j) stars"
        using True up by (simp add: contributions_def)
      then show ?thesis
        using 1(1)[OF \<open>j < length stars\<close> True] 1(3) True \<open>j < length stars\<close>
        by (subst thread_fn_inner.simps) simp
    next
      case False
      let ?s' = "stars[i := addForce (stars ! i) (pair_force (stars ! i) (stars ! j))]"
      have len: "i < length ?s'" using 1(3) by simp
      have c: "contributions i (Suc j) ?s' = contributions i (Suc j) stars"
        using 1(3) by (auto simp: contributions_def)
      have c2: "contributions i j stars
                = pair_force (stars ! i) (stars ! j) # contributions i (Suc j) stars"
        using False up by (simp add: contributions_def)
      have "thread_fn_inner i j stars = thread_fn_inner i (Suc j) ?s'"
        using False \<open>j < length stars\<close> by (subst thread_fn_inner.simps) simp
      also have "\<dots> = ?s'[i := (?s' ! i)
                  \<lparr>force := foldl vadd (force (?s' ! i)) (contributions i (Suc j) ?s')\<rparr>]"
        using 1(2)[OF \<open>j < length stars\<close> False len] .
      also have "\<dots> = stars[i := (stars ! i)
                  \<lparr>force := foldl vadd (force (stars ! i)) (contributions i j stars)\<rparr>]"
        unfolding c c2 using 1(3) by (simp add: addForce_def)
      finally show ?thesis .
    qed
  qed
qed

lemma length_thread_fn_inner:
  "i < length stars \<Longrightarrow> length (thread_fn_inner i j stars) = length stars"
  by (simp add: thread_fn_inner_accumulates)

termination thread_fn_round
  by (relation "measure (\<lambda>(num, i, stars). length stars - i)")
     (auto simp: Let_def length_thread_fn_inner)

declare thread_fn_round.simps [simp del]

section \<open>Creation of the worker threads\<close>

text \<open>
  \<^verbatim>\<open>main\<close> creates the workers in a loop and hands each of them the address of the loop
  variable \<open>i\<close>; a worker reads its number through that pointer when it starts to run
  (\<^verbatim>\<open>int num = *(int*)threadnum\<close>). The main thread and the workers run concurrently, so
  the state records the loop variable, where the main thread stands in the loop, how
  many workers exist, and the number each worker has read so far. A schedule is the
  order in which the threads take their steps. A read after the loop has ended finds
  the last value of \<open>i\<close>, which is \<^verbatim>\<open>NUM_WORKER_THREADS\<close>.
\<close>

datatype main_pc = AtCreate | AtIncr | AfterLoop

datatype actor = Main | Worker nat

record spawn_state =
  loop_i :: nat
  main_at :: main_pc
  created :: nat
  nums :: "nat option list"

definition spawn_init :: spawn_state where
  "spawn_init = \<lparr>loop_i = 0, main_at = AtCreate, created = 0,
                  nums = replicate NUM_WORKER_THREADS None\<rparr>"

fun spawn_step :: "spawn_state \<Rightarrow> actor \<Rightarrow> spawn_state" where
  "spawn_step s Main =
     (case main_at s of
        AtCreate \<Rightarrow> s\<lparr>created := Suc (created s), main_at := AtIncr\<rparr>
      | AtIncr \<Rightarrow> s\<lparr>loop_i := Suc (loop_i s),
                     main_at := (if Suc (loop_i s) < NUM_WORKER_THREADS then AtCreate
                                 else AfterLoop)\<rparr>
      | AfterLoop \<Rightarrow> s)"
| "spawn_step s (Worker k) =
     (if k < created s \<and> nums s ! k = None
      then s\<lparr>nums := (nums s)[k := Some (loop_i s)]\<rparr> else s)"

definition spawn_run :: "actor list \<Rightarrow> spawn_state" where
  "spawn_run sched = foldl spawn_step spawn_init sched"

definition owners :: "nat option list \<Rightarrow> nat \<Rightarrow> nat list" where
  \<comment> \<open>the workers that update star \<open>i\<close> in a round: those whose number is \<open>i mod W\<close>\<close>
  "owners ids i = filter (\<lambda>k. ids ! k = Some (i mod NUM_WORKER_THREADS)) [0..<length ids]"

section \<open>The barrier protocol of a round\<close>

text \<open>
  The main thread (the coordinator) and the workers meet at one barrier for
  \<^verbatim>\<open>NUM_WORKER_THREADS + 1\<close> threads. The coordinator, having finished the merge pass
  (\<open>CFrame\<close>), calls \<^verbatim>\<open>pthread_barrier_wait\<close> twice in a row (\<open>CWait1\<close>, then \<open>CMid\<close> and
  \<open>CWait2\<close>) and returns from \<^verbatim>\<open>updateStars\<close>. A worker calls it at the top of its loop
  (\<open>WTop\<close>, \<open>WWait\<close>), then runs its pass over the stars (\<open>WCompute\<close>) and goes back to
  the top. A call blocks the caller until as many threads as the barrier was
  initialised for are blocked in it; then all of them return. The state counts, as
  ghost values, the frames whose \<^verbatim>\<open>updateStars\<close> has returned, the passes each worker
  has completed and the releases of the barrier. A schedule is the order in which the
  threads take their steps; a blocked thread that is scheduled stays where it is.
\<close>

datatype coord_pc = CFrame | CWait1 | CMid | CWait2

datatype worker_pc = WTop | WWait | WCompute

record round_state =
  coord :: coord_pc
  workers :: "worker_pc list"
  frame :: nat
  passes :: "nat list"
  releases :: nat

definition round_init :: round_state where
  "round_init = \<lparr>coord = CFrame, workers = replicate NUM_WORKER_THREADS WTop, frame = 0,
                  passes = replicate NUM_WORKER_THREADS 0, releases = 0\<rparr>"

definition coord_waiting :: "round_state \<Rightarrow> bool" where
  "coord_waiting s = (coord s = CWait1 \<or> coord s = CWait2)"

definition in_barrier :: "round_state \<Rightarrow> nat" where
  "in_barrier s = length (filter (\<lambda>p. p = WWait) (workers s)) + (if coord_waiting s then 1 else 0)"

definition barrier_release :: "round_state \<Rightarrow> round_state" where
  "barrier_release s =
     s\<lparr>workers := map (\<lambda>p. if p = WWait then WCompute else p) (workers s),
       coord := (case coord s of CWait1 \<Rightarrow> CMid | CWait2 \<Rightarrow> CFrame | c \<Rightarrow> c),
       frame := (if coord s = CWait2 then Suc (frame s) else frame s),
       releases := Suc (releases s)\<rparr>"

definition barrier_arrive :: "round_state \<Rightarrow> round_state" where
  "barrier_arrive s = (if in_barrier s = NUM_WORKER_THREADS + 1 then barrier_release s else s)"

fun round_step :: "round_state \<Rightarrow> actor \<Rightarrow> round_state" where
  "round_step s Main =
     (case coord s of
        CFrame \<Rightarrow> barrier_arrive (s\<lparr>coord := CWait1\<rparr>)
      | CMid \<Rightarrow> barrier_arrive (s\<lparr>coord := CWait2\<rparr>)
      | _ \<Rightarrow> s)"
| "round_step s (Worker k) =
     (if k < length (workers s) then
        (case workers s ! k of
           WTop \<Rightarrow> barrier_arrive (s\<lparr>workers := (workers s)[k := WWait]\<rparr>)
         | WCompute \<Rightarrow> s\<lparr>workers := (workers s)[k := WTop],
                          passes := (passes s)[k := Suc (passes s ! k)]\<rparr>
         | WWait \<Rightarrow> s)
      else s)"

definition round_run :: "actor list \<Rightarrow> round_state" where
  "round_run sched = foldl round_step round_init sched"

text \<open>What holds in every reachable state (lemma \<open>round_inv_run\<close>).\<close>

definition round_inv :: "round_state \<Rightarrow> bool" where
  "round_inv s =
     (length (workers s) = NUM_WORKER_THREADS \<and> length (passes s) = NUM_WORKER_THREADS
      \<and> releases s = 2 * frame s + (if coord s = CMid \<or> coord s = CWait2 then 1 else 0)
      \<and> (\<forall>k<NUM_WORKER_THREADS.
            passes s ! k + (if workers s ! k = WCompute then 1 else 0) = releases s))"

section \<open>The galaxy spawner\<close>

text \<open>
  The C library's generator is an explicit state: the sequence of the values that
  \<^verbatim>\<open>rand()\<close> is going to return, each reduced to the range from 0 to \<^verbatim>\<open>RAND_MAX\<close>
  (glibc's value).
\<close>

type_synonym rng = "nat \<Rightarrow> nat"

definition RAND_MAX :: nat where
  "RAND_MAX = 2147483647"

definition rand :: "rng \<Rightarrow> nat \<times> rng" where
  "rand g = (g 0 mod (RAND_MAX + 1), (\<lambda>n. g (Suc n)))"

definition const_rng :: "nat \<Rightarrow> rng" where
  \<comment> \<open>the generator that returns the same value at every call\<close>
  "const_rng v = (\<lambda>_. v)"

text \<open>
  Modelled from the spec: \<^verbatim>\<open>drand\<close> (\<^verbatim>\<open>util.hh\<close>) is not among the sources. The spec
  reads \<^verbatim>\<open>drand(lo, hi)\<close> as a uniform draw \<^verbatim>\<open>U(lo, hi)\<close>: one value of \<^verbatim>\<open>rand()\<close>, mapped
  linearly from the range of \<^verbatim>\<open>rand()\<close> onto the interval from \<open>lo\<close> to \<open>hi\<close>.
\<close>

definition drand :: "flt \<Rightarrow> flt \<Rightarrow> rng \<Rightarrow> flt \<times> rng" where
  "drand lo hi g =
     (case rand g of (r, g') \<Rightarrow>
        (fadd (fmul (fdiv (Fin (real r)) (Fin (real RAND_MAX))) (fsub hi lo)) lo, g'))"

definition point_radius :: "flt \<Rightarrow> rng \<Rightarrow> flt \<times> rng" where
  \<comment> \<open>\<^verbatim>\<open>addRandomGalaxy\<close>, line 253\<close>
  "point_radius gradius g =
     (case drand (Fin 0) (fsqrt gradius) g of (a, g) \<Rightarrow>
      case drand (Fin 0) (fsqrt gradius) g of (b, g) \<Rightarrow> (fmul a b, g))"

definition point_radius_spec :: "flt \<Rightarrow> rng \<Rightarrow> flt \<times> rng" where
  \<comment> \<open>the radial draw in the words of the spec: \<^verbatim>\<open>sqrt(U(0,R)) * sqrt(U(0,R))\<close>\<close>
  "point_radius_spec gradius g =
     (case drand (Fin 0) gradius g of (a, g) \<Rightarrow>
      case drand (Fin 0) gradius g of (b, g) \<Rightarrow> (fmul (fsqrt a) (fsqrt b), g))"

text \<open>
  The position of a new star is stored as the float sum \<^verbatim>\<open>pos + center\<close>, after the mass
  has been taken from \<^verbatim>\<open>pos\<close> alone. A small offset is lost in this sum when the centre
  is large, so here the rounding of the sum to binary32 is part of the model: to the
  nearest value with 24 significant bits, ties to even, with the smallest exponent -126
  and overflow to infinity.
\<close>

definition round_even :: "real \<Rightarrow> int" where
  "round_even q =
     (let f = \<lfloor>q\<rfloor>; d = q - of_int f
      in if d < 1 / 2 then f else if 1 / 2 < d then f + 1 else if even f then f else f + 1)"

definition round_binary32 :: "real \<Rightarrow> real" where
  "round_binary32 x =
     (if x = 0 then 0
      else (let e = max \<lfloor>log 2 \<bar>x\<bar>\<rfloor> (- 126); u = 2 powr (of_int e - 23)
            in of_int (round_even (x / u)) * u))"

definition fadd32 :: "flt \<Rightarrow> flt \<Rightarrow> flt" where
  \<comment> \<open>\<^verbatim>\<open>a + b\<close> in binary32, rounded\<close>
  "fadd32 a b =
     (case fadd a b of
        Fin r \<Rightarrow> (if 2 ^ 128 \<le> \<bar>round_binary32 r\<bar> then inf_of r else Fin (round_binary32 r))
      | c \<Rightarrow> c)"

definition vadd32 :: "vec2d \<Rightarrow> vec2d \<Rightarrow> vec2d" where
  "vadd32 a b = vec2d (fadd32 (vx a) (vx b)) (fadd32 (vy a) (vy b))"

definition make_star :: "vec2d \<Rightarrow> flt \<Rightarrow> flt \<Rightarrow> flt \<Rightarrow> flt \<Rightarrow> star" where
  \<comment> \<open>\<^verbatim>\<open>addRandomGalaxy\<close>, lines 255-267, from the values drawn for one star\<close>
  "make_star center direction angle pr f =
     (let x = fmul pr (fsin angle);
          y = fmul pr (fcos angle);
          p = vec2d x y;
          v = vscale (vscale (vscale (vec2d (fneg (fcos angle)) (fsin angle))
                                (fsqrt pr)) direction) f
      in new_star (fdiv (Fin 10) (fsqrt (magnitude p))) (vadd32 p center) v)"

definition spawn_star :: "vec2d \<Rightarrow> flt \<Rightarrow> flt \<Rightarrow> rng \<Rightarrow> star \<times> rng" where
  \<comment> \<open>one iteration of the loop of \<^verbatim>\<open>addRandomGalaxy\<close>; the colour takes three draws\<close>
  "spawn_star center gradius direction g =
     (case drand (Fin 0) (Fin (pi * 2)) g of (angle, g) \<Rightarrow>
      case point_radius gradius g of (pr, g) \<Rightarrow>
      case drand (Fin (1 / 4)) (Fin (5 / 4)) g of (f, g) \<Rightarrow>
      case rand g of (red, g) \<Rightarrow>
      case rand g of (green, g) \<Rightarrow>
      case rand g of (blue, g) \<Rightarrow>
        (make_star center direction angle pr f, g))"

fun spawn_loop :: "nat \<Rightarrow> vec2d \<Rightarrow> flt \<Rightarrow> flt \<Rightarrow> star list \<times> rng \<Rightarrow> star list \<times> rng" where
  "spawn_loop 0 center gradius direction (stars, g) = (stars, g)"
| "spawn_loop (Suc n) center gradius direction (stars, g) =
     (case spawn_star center gradius direction g of (s, g') \<Rightarrow>
        spawn_loop n center gradius direction (stars @ [s], g'))"

definition addRandomGalaxy :: "flt \<Rightarrow> flt \<Rightarrow> star list \<times> rng \<Rightarrow> star list \<times> rng" where
  "addRandomGalaxy center_x center_y sg =
     (case sg of (stars, g) \<Rightarrow>
      case rand g of (r, g) \<Rightarrow>
      let count = r mod 500 + 500 in
      case drand (Fin 50) (Fin 200) g of (gradius, g) \<Rightarrow>
      let center = vec2d center_x center_y in
      case rand g of (r, g) \<Rightarrow>
      let direction = (if r mod 2 = 0 then Fin (- 1) else Fin 1) in
        spawn_loop count center gradius direction (stars, g))"

text \<open>
  The values a call draws, by their place in the sequence of \<^verbatim>\<open>rand()\<close> values: the
  count, the base radius and the direction come first, then seven values for each star
  (angle, the two factors of the radial offset, the speed factor, three for the
  colour). \<open>unit_draw g n\<close> is the \<open>n\<close>-th value as a fraction of \<^verbatim>\<open>RAND_MAX\<close>.
\<close>

definition advance :: "rng \<Rightarrow> nat \<Rightarrow> rng" where
  "advance g n = (\<lambda>k. g (k + n))"

definition unit_draw :: "rng \<Rightarrow> nat \<Rightarrow> real" where
  "unit_draw g n = real (g n mod (RAND_MAX + 1)) / real RAND_MAX"

definition galaxy_count :: "rng \<Rightarrow> nat" where
  "galaxy_count g = g 0 mod (RAND_MAX + 1) mod 500 + 500"

definition galaxy_radius :: "rng \<Rightarrow> real" where
  "galaxy_radius g = unit_draw g 1 * 150 + 50"

definition galaxy_direction :: "rng \<Rightarrow> real" where
  "galaxy_direction g = (if g 2 mod (RAND_MAX + 1) mod 2 = 0 then - 1 else 1)"

definition star_angle :: "rng \<Rightarrow> nat \<Rightarrow> real" where
  "star_angle g k = unit_draw g (3 + 7 * k) * (pi * 2)"

definition star_offset :: "rng \<Rightarrow> nat \<Rightarrow> real" where
  \<comment> \<open>the radial offset of star \<open>k\<close>: the product of two draws from \<open>U(0, sqrt R)\<close>\<close>
  "star_offset g k =
     unit_draw g (4 + 7 * k) * sqrt (galaxy_radius g)
     * (unit_draw g (5 + 7 * k) * sqrt (galaxy_radius g))"

definition star_speed_factor :: "rng \<Rightarrow> nat \<Rightarrow> real" where
  "star_speed_factor g k = unit_draw g (6 + 7 * k) + 1 / 4"

definition drawn_star :: "vec2d \<Rightarrow> rng \<Rightarrow> nat \<Rightarrow> star" where
  \<comment> \<open>star \<open>k\<close> of the galaxy that a call with generator \<open>g\<close> spawns around \<open>center\<close>\<close>
  "drawn_star center g k =
     make_star center (Fin (galaxy_direction g)) (Fin (star_angle g k))
       (Fin (star_offset g k)) (Fin (star_speed_factor g k))"

section \<open>Properties of the validity check\<close>









section \<open>Properties of the collision merger\<close>

lemma magnitude_x_axis: "magnitude (vec2d (Fin a) (Fin 0)) = Fin \<bar>a\<bar>"
  by (simp add: magnitude_def fpow2_def)




lemma merge_pass_pair:
  "overlap rad a b \<Longrightarrow> updateStars_merge rad [a, b] = [merge a b]"
  by (simp add: updateStars_merge_def updateStars_outer.simps updateStars_inner.simps erase_def)

text \<open>
  C1: the merged star has the sum of the masses, the momentum-weighted average of the
  velocities and the position of the heavier input, the first star's on a tie. One
  merge pass over two overlapping stars leaves the merged star alone; with masses 10
  and 20 it has mass 30 and sits where the star of mass 20 was, in either order.
\<close>

theorem merge_mass_velocity_position:
  "mass (merge a b) = fadd (mass a) (mass b)
   \<and> vel (merge a b) =
       vdiv (vadd (vscale (vel a) (mass a)) (vscale (vel b) (mass b))) (fadd (mass a) (mass b))
   \<and> pos (merge a b) = (if fless (mass a) (mass b) then pos b else pos a)
   \<and> (mass a = mass b \<longrightarrow> pos (merge a b) = pos a)
   \<and> (overlap rad a b \<longrightarrow> updateStars_merge rad [a, b] = [merge a b])
   \<and> (mass a = Fin 10 \<and> mass b = Fin 20 \<longrightarrow>
        mass (merge a b) = Fin 30 \<and> pos (merge a b) = pos b
        \<and> mass (merge b a) = Fin 30 \<and> pos (merge b a) = pos b)"
proof -
  have tie: "mass a = mass b \<Longrightarrow> \<not> fless (mass a) (mass b)"
    by (cases "mass b") simp_all
  show ?thesis
    using tie by (auto simp: merge_def new_star_def merge_pass_pair)
qed

theorem merge_mass_velocity_position_witness:
  "overlap fsqrt (new_star (Fin 10) (vec2d (Fin 0) (Fin 0)) (vec2d (Fin 3) (Fin 0)))
                 (new_star (Fin 20) (vec2d (Fin (1 / 2)) (Fin 0)) (vec2d (Fin 0) (Fin 3)))
   \<and> updateStars_merge fsqrt
        [new_star (Fin 10) (vec2d (Fin 0) (Fin 0)) (vec2d (Fin 3) (Fin 0)),
         new_star (Fin 20) (vec2d (Fin (1 / 2)) (Fin 0)) (vec2d (Fin 0) (Fin 3))]
     = [new_star (Fin 30) (vec2d (Fin (1 / 2)) (Fin 0)) (vec2d (Fin 1) (Fin 2))]"
proof -
  let ?a = "new_star (Fin 10) (vec2d (Fin 0) (Fin 0)) (vec2d (Fin 3) (Fin 0))"
  let ?b = "new_star (Fin 20) (vec2d (Fin (1 / 2)) (Fin 0)) (vec2d (Fin 0) (Fin 3))"
  have "1 \<le> sqrt 10" and "0 \<le> sqrt 20" by simp_all
  then have "1 / 2 < sqrt 10 + sqrt 20" by linarith
  then have ov: "overlap fsqrt ?a ?b"
    by (simp add: overlap_def radius_def new_star_def vsub_def fsub_def magnitude_x_axis)
  have m: "merge ?a ?b = new_star (Fin 30) (vec2d (Fin (1 / 2)) (Fin 0)) (vec2d (Fin 1) (Fin 2))"
    by (simp add: merge_def new_star_def vadd_def vscale_def vdiv_def)
  show ?thesis
    using ov m merge_mass_velocity_position [of ?a ?b fsqrt] by simp
qed


text \<open>
  The same happens for every radius function with positive values, increasing or not,
  when the merged star takes the place of the heavier star it absorbed: \<open>K\<close> touches
  \<open>A\<close>, the heavier \<open>B\<close> lies halfway between them, and the merged star, now where
  \<open>B\<close> was, overlaps \<open>K\<close>.
\<close>

lemma merge_pass_leaves_overlap_moved:
  assumes r1: "rad (Fin 1) = Fin r1" and r2: "rad (Fin 2) = Fin r2" and r3: "rad (Fin 3) = Fin r3"
    and pos: "0 < r1" "0 < r2" "0 < r3"
  defines "A \<equiv> new_star (Fin 1) (vec2d (Fin 0) (Fin 0)) (vec2d (Fin 0) (Fin 0))"
    and "K \<equiv> new_star (Fin 1) (vec2d (Fin (2 * r1)) (Fin 0)) (vec2d (Fin 0) (Fin 0))"
    and "B \<equiv> new_star (Fin 2) (vec2d (Fin r1) (Fin 0)) (vec2d (Fin 0) (Fin 0))"
  shows "updateStars_merge rad [A, K, B] = [merge A B, K]"
    and "overlap rad (merge A B) K"
proof -
  have AK: "\<not> overlap rad A K"
    using r1 pos
    by (simp add: overlap_def radius_def A_def K_def new_star_def vsub_def fsub_def
        magnitude_x_axis)
  have AB: "overlap rad A B"
    using r1 r2 pos
    by (simp add: overlap_def radius_def A_def B_def new_star_def vsub_def fsub_def
        magnitude_x_axis)
  have M: "merge A B = new_star (Fin 3) (vec2d (Fin r1) (Fin 0)) (vec2d (Fin 0) (Fin 0))"
    by (simp add: merge_def A_def B_def new_star_def vadd_def vscale_def vdiv_def)
  show "overlap rad (merge A B) K"
    unfolding M using r1 r3 pos
    by (simp add: overlap_def radius_def K_def new_star_def vsub_def fsub_def magnitude_x_axis)
  show "updateStars_merge rad [A, K, B] = [merge A B, K]"
    using AK AB
    by (simp add: updateStars_merge_def updateStars_outer.simps updateStars_inner.simps
        erase_def)
qed










section \<open>Properties of the force computation\<close>


lemma magnitude_scaled:
  "magnitude (vec2d (Fin (k * u)) (Fin (k * v))) = Fin (\<bar>k\<bar> * sqrt (u\<^sup>2 + v\<^sup>2))"
proof -
  have e: "k * u * (k * u) + k * v * (k * v) = k\<^sup>2 * (u\<^sup>2 + v\<^sup>2)"
    by (simp add: power2_eq_square algebra_simps)
  have nn: "\<not> k\<^sup>2 * (u\<^sup>2 + v\<^sup>2) < 0"
    by (simp add: not_less)
  show ?thesis
    using nn by (simp add: magnitude_def fpow2_def e real_sqrt_mult)
qed





section \<open>Properties of the worker rounds\<close>

lemma owners_partition:
  "owners [Some 0, Some 1, Some 2, Some 3] i = [i mod NUM_WORKER_THREADS]"
proof -
  have "i mod 4 < 4" by simp
  then have "i mod 4 = 0 \<or> i mod 4 = 1 \<or> i mod 4 = 2 \<or> i mod 4 = 3" by linarith
  then show ?thesis
    by (auto simp: owners_def NUM_WORKER_THREADS_def upt_rec)
qed

lemma length_thread_fn_round:
  "length (thread_fn_round num i stars) = length stars"
proof (induction num i stars rule: thread_fn_round.induct)
  case (1 num i stars)
  show ?case
  proof (cases "i < length stars")
    case False
    then show ?thesis by (subst thread_fn_round.simps) simp
  next
    case True
    show ?thesis
    proof (cases "i mod NUM_WORKER_THREADS = num")
      case own: True
      show ?thesis
        using 1(1)[OF True own] True own
        by (subst thread_fn_round.simps) (simp add: Let_def length_thread_fn_inner)
    next
      case False
      show ?thesis
        using 1(2)[OF True False] True False
        by (subst thread_fn_round.simps) simp
    qed
  qed
qed

lemma thread_fn_round_other:
  "k < length stars \<Longrightarrow> k mod NUM_WORKER_THREADS \<noteq> num \<Longrightarrow>
   thread_fn_round num i stars ! k = stars ! k"
proof (induction num i stars rule: thread_fn_round.induct)
  case (1 num i stars)
  show ?case
  proof (cases "i < length stars")
    case False
    then show ?thesis by (subst thread_fn_round.simps) simp
  next
    case True
    show ?thesis
    proof (cases "i mod NUM_WORKER_THREADS = num")
      case own: True
      let ?s = "let stars' = thread_fn_inner i 0 stars in stars'[i := update (stars' ! i) DT]"
      have ki: "k \<noteq> i" using own 1(4) by auto
      have len: "k < length ?s" using 1(3) True by (simp add: Let_def length_thread_fn_inner)
      have "thread_fn_round num i stars ! k = thread_fn_round num (Suc i) ?s ! k"
        using True own by (subst thread_fn_round.simps) simp
      also have "\<dots> = ?s ! k"
        using 1(1)[OF True own len 1(4)] .
      also have "\<dots> = stars ! k"
        using ki True 1(3) by (simp add: Let_def thread_fn_inner_accumulates)
      finally show ?thesis .
    next
      case False
      show ?thesis
        using 1(2)[OF True False 1(3,4)] True False
        by (subst thread_fn_round.simps) simp
    qed
  qed
qed

lemma worker_numbers_in_order:
  "nums (spawn_run [Main, Worker 0, Main, Main, Worker 1, Main, Main, Worker 2, Main,
                    Main, Worker 3, Main]) = [Some 0, Some 1, Some 2, Some 3]"
  by code_simp

text \<open>
  C4: the numbers of the workers are not always distinct. Each worker reads its number
  through a pointer to the loop variable of \<^verbatim>\<open>main\<close>, which \<^verbatim>\<open>main\<close> goes on
  incrementing. In the schedule below worker 0 first runs after the first increment:
  workers 0 and 1 both read 1, so no worker updates star 0 and two workers update
  star 1.
\<close>

theorem worker_numbers_race:
  "nums (spawn_run [Main, Main, Worker 0, Main, Worker 1, Main, Main, Worker 2, Main,
                    Main, Worker 3, Main]) = [Some 1, Some 1, Some 2, Some 3]
   \<and> owners [Some 1, Some 1, Some 2, Some 3] 0 = []
   \<and> owners [Some 1, Some 1, Some 2, Some 3] 1 = [0, 1]"
  by code_simp

section \<open>Properties of the galaxy spawner\<close>

lemma unit_draw_range: "0 \<le> unit_draw g n \<and> unit_draw g n \<le> 1"
proof -
  have "g n mod (RAND_MAX + 1) \<le> RAND_MAX" by (simp add: less_Suc_eq_le [symmetric])
  moreover have "0 < real RAND_MAX" by (simp add: RAND_MAX_def)
  ultimately show ?thesis by (simp add: unit_draw_def divide_le_eq)
qed

lemma advance_0: "advance g 0 = g"
  by (simp add: advance_def)

lemma rand_advance:
  "rand (advance g n) = (g n mod (RAND_MAX + 1), advance g (Suc n))"
  by (simp add: rand_def advance_def)

lemma drand_advance:
  "drand (Fin lo) (Fin hi) (advance g n)
     = (Fin (unit_draw g n * (hi - lo) + lo), advance g (Suc n))"
proof -
  have "real RAND_MAX \<noteq> 0" by (simp add: RAND_MAX_def)
  then show ?thesis
    by (simp add: drand_def rand_advance fsub_def unit_draw_def)
qed

lemma point_radius_advance:
  assumes "0 \<le> R"
  shows "point_radius (Fin R) (advance g n)
     = (Fin (unit_draw g n * sqrt R * (unit_draw g (Suc n) * sqrt R)), advance g (Suc (Suc n)))"
proof -
  have sq: "fsqrt (Fin R) = Fin (sqrt R)" using assms by simp
  show ?thesis
    unfolding point_radius_def sq by (simp add: drand_advance)
qed

lemma spawn_star_advance:
  assumes "0 \<le> R"
  shows "spawn_star center (Fin R) (Fin dir) (advance g n)
     = (make_star center (Fin dir) (Fin (unit_draw g n * (pi * 2)))
          (Fin (unit_draw g (n + 1) * sqrt R * (unit_draw g (n + 2) * sqrt R)))
          (Fin (unit_draw g (n + 3) + 1 / 4)),
        advance g (n + 7))"
  by (simp add: spawn_star_def drand_advance point_radius_advance [OF assms] rand_advance
      eval_nat_numeral)

lemma spawn_loop_advance:
  assumes "0 \<le> R"
  shows "spawn_loop m center (Fin R) (Fin dir) (stars, advance g n)
     = (stars @ map (\<lambda>k. make_star center (Fin dir) (Fin (unit_draw g (n + 7 * k) * (pi * 2)))
          (Fin (unit_draw g (n + 7 * k + 1) * sqrt R * (unit_draw g (n + 7 * k + 2) * sqrt R)))
          (Fin (unit_draw g (n + 7 * k + 3) + 1 / 4))) [0..<m],
        advance g (n + 7 * m))"
proof (induction m arbitrary: stars n)
  case 0
  then show ?case by simp
next
  case (Suc m)
  have a: "n + 7 + 7 * k = n + 7 * Suc k" for k by simp
  show ?case
    unfolding spawn_loop.simps spawn_star_advance [OF assms] prod.case Suc.IH
    by (simp only: a map_upt_Suc append_assoc append_Cons append_Nil mult_0_right add_0_right
        mult_Suc_right)
qed

lemma addRandomGalaxy_drawn:
  "addRandomGalaxy (Fin cx) (Fin cy) (stars, g)
   = (stars @ map (drawn_star (vec2d (Fin cx) (Fin cy)) g) [0..<galaxy_count g],
      advance g (3 + 7 * galaxy_count g))"
proof -
  have R0: "0 \<le> galaxy_radius g"
    using unit_draw_range [of g 1] by (simp add: galaxy_radius_def)
  have r0: "rand g = (g 0 mod (RAND_MAX + 1), advance g 1)"
    using rand_advance [of g 0] by (simp add: advance_0)
  have d1: "drand (Fin 50) (Fin 200) (advance g 1) = (Fin (galaxy_radius g), advance g 2)"
    using drand_advance [of 50 200 g 1] by (simp add: galaxy_radius_def numeral_2_eq_2)
  have r2: "rand (advance g 2) = (g 2 mod (RAND_MAX + 1), advance g 3)"
    using rand_advance [of g 2] by (simp add: numeral_3_eq_3)
  have dir: "(if g 2 mod (RAND_MAX + 1) mod 2 = 0 then Fin (- 1) else Fin 1)
             = Fin (galaxy_direction g)"
    by (simp add: galaxy_direction_def)
  have m: "(\<lambda>k. make_star (vec2d (Fin cx) (Fin cy)) (Fin (galaxy_direction g))
          (Fin (unit_draw g (3 + 7 * k) * (pi * 2)))
          (Fin (unit_draw g (3 + 7 * k + 1) * sqrt (galaxy_radius g)
                * (unit_draw g (3 + 7 * k + 2) * sqrt (galaxy_radius g))))
          (Fin (unit_draw g (3 + 7 * k + 3) + 1 / 4)))
        = drawn_star (vec2d (Fin cx) (Fin cy)) g"
    by (rule ext) (simp add: drawn_star_def star_angle_def star_offset_def star_speed_factor_def)
  show ?thesis
    unfolding addRandomGalaxy_def prod.case r0 Let_def d1 r2 dir
      spawn_loop_advance [OF R0] m
    by (simp add: galaxy_count_def)
qed

lemma offset_magnitude:
  assumes "0 \<le> r"
  shows "magnitude (vec2d (Fin (r * sin a)) (Fin (r * cos a))) = Fin r"
  unfolding magnitude_scaled using assms by simp

lemma make_star_fields:
  assumes "0 \<le> r"
  shows "pos (make_star center (Fin dir) (Fin a) (Fin r) (Fin f))
           = vadd32 (vec2d (Fin (r * sin a)) (Fin (r * cos a))) center"
    and "vel (make_star center (Fin dir) (Fin a) (Fin r) (Fin f))
           = vec2d (Fin (- cos a * sqrt r * dir * f)) (Fin (sin a * sqrt r * dir * f))"
    and "mass (make_star center (Fin dir) (Fin a) (Fin r) (Fin f))
           = fdiv (Fin 10) (fsqrt (magnitude (vec2d (Fin (r * sin a)) (Fin (r * cos a)))))"
proof -
  have nr: "\<not> r < 0" using assms by simp
  show "pos (make_star center (Fin dir) (Fin a) (Fin r) (Fin f))
           = vadd32 (vec2d (Fin (r * sin a)) (Fin (r * cos a))) center"
    by (simp add: make_star_def Let_def new_star_def)
  show "vel (make_star center (Fin dir) (Fin a) (Fin r) (Fin f))
           = vec2d (Fin (- cos a * sqrt r * dir * f)) (Fin (sin a * sqrt r * dir * f))"
    using nr by (simp add: make_star_def Let_def new_star_def vscale_def)
  show "mass (make_star center (Fin dir) (Fin a) (Fin r) (Fin f))
           = fdiv (Fin 10) (fsqrt (magnitude (vec2d (Fin (r * sin a)) (Fin (r * cos a)))))"
    by (simp add: make_star_def Let_def new_star_def)
qed

lemma make_star_mass:
  assumes "0 \<le> r"
  shows "mass (make_star center (Fin dir) (Fin a) (Fin r) (Fin f))
           = (if r = 0 then PInf else Fin (10 / sqrt r))"
  unfolding make_star_fields(3) [OF assms] offset_magnitude [OF assms]
  using assms by (simp add: inf_of_def)

lemma make_star_tangential:
  assumes "0 \<le> r"
  shows "vdot (vel (make_star center (Fin dir) (Fin a) (Fin r) (Fin f)))
              (vec2d (Fin (r * sin a)) (Fin (r * cos a))) = Fin 0"
  unfolding make_star_fields(2) [OF assms]
  by (simp add: vdot_def algebra_simps)

lemma make_star_speed:
  assumes "0 \<le> r" "0 \<le> f" "dir = 1 \<or> dir = - 1"
  shows "magnitude (vel (make_star center (Fin dir) (Fin a) (Fin r) (Fin f)))
           = Fin (sqrt r * f)"
proof -
  let ?k = "sqrt r * dir * f"
  have v: "vec2d (Fin (- cos a * sqrt r * dir * f)) (Fin (sin a * sqrt r * dir * f))
           = vec2d (Fin (?k * (- cos a))) (Fin (?k * sin a))"
    by (simp add: mult_ac)
  have k: "\<bar>?k\<bar> = sqrt r * f"
    using assms by (auto simp: abs_mult)
  have "(- cos a)\<^sup>2 + (sin a)\<^sup>2 = 1"
    by (simp add: add.commute)
  then show ?thesis
    unfolding make_star_fields(2) [OF assms(1)] v magnitude_scaled k by simp
qed

lemma round_even_near:
  assumes "\<bar>y\<bar> < 1 / 2"
  shows "round_even (of_int m + y) = m"
proof (cases "0 \<le> y")
  case True
  then have "\<lfloor>of_int m + y\<rfloor> = m" using assms by (simp add: floor_unique)
  then show ?thesis using True assms by (simp add: round_even_def Let_def)
next
  case False
  then have f: "\<lfloor>of_int m + y\<rfloor> = m - 1" using assms by (intro floor_unique) simp_all
  have "of_int m + y - of_int (m - 1) = 1 + y" by simp
  then show ?thesis using False assms by (simp add: round_even_def Let_def f)
qed

lemma round_binary32_absorb:
  assumes c: "256 \<le> c - 1" "c + 1 < 512" and m: "c * 32768 = of_int m" and x: "\<bar>x\<bar> < 1 / 65536"
  shows "round_binary32 (x + c) = c"
proof -
  have pos: "0 < x + c" using c x by linarith
  have lo: "2 powr 8 \<le> x + c"
  proof -
    have "2 powr 8 = (256::real)" by (simp add: powr_numeral)
    then show ?thesis using c x by linarith
  qed
  have hi: "x + c < 2 powr 9"
  proof -
    have "2 powr 9 = (512::real)" by (simp add: powr_numeral)
    then show ?thesis using c x by linarith
  qed
  have "8 \<le> log 2 (x + c)" using lo pos by (simp add: le_log_iff)
  moreover have "log 2 (x + c) < 9" using hi pos by (simp add: log_less_iff)
  ultimately have fl: "\<lfloor>log 2 (x + c)\<rfloor> = 8"
    by (intro floor_unique) simp_all
  have u: "2 powr (of_int (max 8 (- 126)) - 23) = (1 / 32768 :: real)"
  proof -
    have "2 powr (- 15) = 1 / (2 powr 15 :: real)" by (simp add: powr_minus_divide)
    also have "(2 powr 15 :: real) = 32768" by (simp add: powr_numeral)
    finally show ?thesis by simp
  qed
  have q: "(x + c) / (1 / 32768) = of_int m + x * 32768"
    using m by (simp add: algebra_simps)
  have "\<bar>x * 32768\<bar> < 1 / 2" using x by (simp add: abs_mult)
  then have r: "round_even (of_int m + x * 32768) = m" by (rule round_even_near)
  have "round_binary32 (x + c)
        = of_int (round_even ((x + c) / 2 powr (of_int (max \<lfloor>log 2 (x + c)\<rfloor> (- 126)) - 23)))
          * 2 powr (of_int (max \<lfloor>log 2 (x + c)\<rfloor> (- 126)) - 23)"
    using pos by (simp add: round_binary32_def Let_def)
  also have "\<dots> = of_int m * (1 / 32768)"
    unfolding fl u q r ..
  also have "\<dots> = c" using m by simp
  finally show ?thesis .
qed

lemma fadd32_absorb:
  assumes "256 \<le> c - 1" "c + 1 < 512" "c * 32768 = of_int m" "\<bar>x\<bar> < 1 / 65536"
  shows "fadd32 (Fin x) (Fin c) = Fin c"
proof -
  have r: "round_binary32 (x + c) = c" using assms by (rule round_binary32_absorb)
  have "\<bar>c\<bar> < 512" using assms(1,2) by simp
  also have "(512::real) \<le> 2 ^ 128" by simp
  finally have "\<not> 2 ^ 128 \<le> \<bar>c\<bar>" by simp
  then show ?thesis by (simp add: fadd32_def r)
qed

lemma make_star_on_centre:
  assumes "0 < r" "r < 1 / 65536"
  shows "pos (make_star (vec2d (Fin 400) (Fin 300)) (Fin dir) (Fin a) (Fin r) (Fin f))
           = vec2d (Fin 400) (Fin 300)"
proof -
  have r0: "0 \<le> r" using assms by simp
  have "\<bar>r * sin a\<bar> \<le> r * 1"
    unfolding abs_mult using r0 by (intro mult_mono) simp_all
  then have x: "\<bar>r * sin a\<bar> < 1 / 65536" using assms by simp
  have "\<bar>r * cos a\<bar> \<le> r * 1"
    unfolding abs_mult using r0 by (intro mult_mono) simp_all
  then have y: "\<bar>r * cos a\<bar> < 1 / 65536" using assms by simp
  have fx: "fadd32 (Fin (r * sin a)) (Fin 400) = Fin 400"
    by (rule fadd32_absorb [where m = 13107200]) (use x in simp_all)
  have fy: "fadd32 (Fin (r * cos a)) (Fin 300) = Fin 300"
    by (rule fadd32_absorb [where m = 9830400]) (use y in simp_all)
  show ?thesis
    unfolding make_star_fields(1) [OF r0] by (simp add: vadd32_def fx fy)
qed

lemma galaxy_ranges:
  "500 \<le> galaxy_count g" "galaxy_count g \<le> 999"
  "50 \<le> galaxy_radius g" "galaxy_radius g \<le> 200"
  "galaxy_direction g = 1 \<or> galaxy_direction g = - 1"
proof -
  show "500 \<le> galaxy_count g" by (simp add: galaxy_count_def)
  have "g 0 mod (RAND_MAX + 1) mod 500 < 500" by simp
  then show "galaxy_count g \<le> 999" unfolding galaxy_count_def by linarith
  show "50 \<le> galaxy_radius g" "galaxy_radius g \<le> 200"
    using unit_draw_range [of g 1] by (simp_all add: galaxy_radius_def)
  show "galaxy_direction g = 1 \<or> galaxy_direction g = - 1"
    by (simp add: galaxy_direction_def)
qed

lemma unit_scale:
  fixes u s :: real
  assumes "0 \<le> u \<and> u \<le> 1" "0 \<le> s"
  shows "0 \<le> u * s" "u * s \<le> s"
proof -
  show "0 \<le> u * s" using assms by simp
  have "u * s \<le> 1 * s" using assms by (intro mult_right_mono) simp_all
  then show "u * s \<le> s" by simp
qed

lemma star_ranges:
  "0 \<le> star_offset g k" "star_offset g k \<le> galaxy_radius g"
  "1 / 4 \<le> star_speed_factor g k" "star_speed_factor g k \<le> 5 / 4"
proof -
  let ?s = "sqrt (galaxy_radius g)"
  have R: "0 \<le> galaxy_radius g" using galaxy_ranges(3) [of g] by simp
  then have s: "0 \<le> ?s" by simp
  note u1 = unit_draw_range [of g "4 + 7 * k"]
  note u2 = unit_draw_range [of g "5 + 7 * k"]
  note a = unit_scale [OF u1 s]
  note b = unit_scale [OF u2 s]
  show "0 \<le> star_offset g k" unfolding star_offset_def using a(1) b(1) by simp
  have "unit_draw g (4 + 7 * k) * ?s * (unit_draw g (5 + 7 * k) * ?s) \<le> ?s * ?s"
    using a b s by (intro mult_mono) simp_all
  also have "\<dots> = galaxy_radius g" using R by simp
  finally show "star_offset g k \<le> galaxy_radius g" unfolding star_offset_def .
  show "1 / 4 \<le> star_speed_factor g k" "star_speed_factor g k \<le> 5 / 4"
    using unit_draw_range [of g "6 + 7 * k"] by (simp_all add: star_speed_factor_def)
qed

lemma rand_const_rng: "v \<le> RAND_MAX \<Longrightarrow> rand (const_rng v) = (v, const_rng v)"
  by (simp add: rand_def const_rng_def)

lemma drand_const_rng:
  "v \<le> RAND_MAX \<Longrightarrow>
   drand (Fin lo) (Fin hi) (const_rng v)
     = (Fin (real v / real RAND_MAX * (hi - lo) + lo), const_rng v)"
  by (simp add: drand_def rand_const_rng fsub_def RAND_MAX_def)

lemma sqrt_100: "sqrt 100 = 10"
  using real_sqrt_abs [of 10] by simp

lemma unit_draw_const_max: "unit_draw (const_rng RAND_MAX) n = 1"
  by (simp add: unit_draw_def const_rng_def RAND_MAX_def)

lemma unit_draw_const_0: "unit_draw (const_rng 0) n = 0"
  by (simp add: unit_draw_def const_rng_def)

lemma fadd32_0: "fadd32 (Fin 0) (Fin 0) = Fin 0"
  by (simp add: fadd32_def round_binary32_def)

lemma const_rng_apply: "const_rng v n = v"
  by (simp add: const_rng_def)

lemma drawn_star_zero:
  "drawn_star (vec2d (Fin 0) (Fin 0)) (const_rng 0) k
   = new_star PInf (vec2d (Fin 0) (Fin 0)) (vec2d (Fin 0) (Fin 0))"
  by (simp add: drawn_star_def make_star_def Let_def galaxy_direction_def star_angle_def
      star_offset_def star_speed_factor_def unit_draw_const_0 magnitude_def fpow2_def
      vscale_def vadd32_def fadd32_0 inf_of_def const_rng_apply)

text \<open>
  C6, as the code has it: a call appends \<open>galaxy_count g\<close> stars, between 500 and 999.
  The base radius, between 50 and 200, and the direction, 1 or -1, are drawn once per
  call. The radial offset of a star is the product of two draws from \<open>U(0, sqrt R)\<close>,
  each a value of \<^verbatim>\<open>rand()\<close> scaled linearly, so it lies between 0 and \<open>R\<close>. The star is
  stored at the float sum of its offset and the centre; its velocity is orthogonal to
  the offset, turns the way the direction says, and has the speed \<open>sqrt r\<close> times a draw
  between 0.25 and 1.25.
\<close>

theorem addRandomGalaxy_disk:
  "fst (addRandomGalaxy (Fin cx) (Fin cy) (stars, g))
     = stars @ map (drawn_star (vec2d (Fin cx) (Fin cy)) g) [0..<galaxy_count g]
   \<and> 500 \<le> galaxy_count g \<and> galaxy_count g \<le> 999
   \<and> 50 \<le> galaxy_radius g \<and> galaxy_radius g \<le> 200
   \<and> (galaxy_direction g = 1 \<or> galaxy_direction g = - 1)
   \<and> 0 \<le> unit_draw g n \<and> unit_draw g n \<le> 1
   \<and> star_offset g k = unit_draw g (4 + 7 * k) * sqrt (galaxy_radius g)
                        * (unit_draw g (5 + 7 * k) * sqrt (galaxy_radius g))
   \<and> 0 \<le> star_offset g k \<and> star_offset g k \<le> galaxy_radius g
   \<and> star_speed_factor g k = unit_draw g (6 + 7 * k) + 1 / 4
   \<and> pos (drawn_star (vec2d (Fin cx) (Fin cy)) g k)
       = vadd32 (vec2d (Fin (star_offset g k * sin (star_angle g k)))
                       (Fin (star_offset g k * cos (star_angle g k))))
                (vec2d (Fin cx) (Fin cy))
   \<and> vel (drawn_star (vec2d (Fin cx) (Fin cy)) g k)
       = vec2d (Fin (- cos (star_angle g k) * sqrt (star_offset g k) * galaxy_direction g
                     * star_speed_factor g k))
               (Fin (sin (star_angle g k) * sqrt (star_offset g k) * galaxy_direction g
                     * star_speed_factor g k))
   \<and> vdot (vel (drawn_star (vec2d (Fin cx) (Fin cy)) g k))
          (vec2d (Fin (star_offset g k * sin (star_angle g k)))
                 (Fin (star_offset g k * cos (star_angle g k)))) = Fin 0
   \<and> magnitude (vel (drawn_star (vec2d (Fin cx) (Fin cy)) g k))
       = Fin (sqrt (star_offset g k) * star_speed_factor g k)"
proof -
  note r = star_ranges [of g k]
  have f0: "0 \<le> star_speed_factor g k" using r(3) by simp
  note fl = make_star_fields [OF r(1), of "vec2d (Fin cx) (Fin cy)" "galaxy_direction g"
      "star_angle g k" "star_speed_factor g k", folded drawn_star_def]
  note tg = make_star_tangential [OF r(1), of "vec2d (Fin cx) (Fin cy)" "galaxy_direction g"
      "star_angle g k" "star_speed_factor g k", folded drawn_star_def]
  note sp = make_star_speed [OF r(1) f0 galaxy_ranges(5) [of g], of "vec2d (Fin cx) (Fin cy)"
      "star_angle g k", folded drawn_star_def]
  have 1: "fst (addRandomGalaxy (Fin cx) (Fin cy) (stars, g))
     = stars @ map (drawn_star (vec2d (Fin cx) (Fin cy)) g) [0..<galaxy_count g]"
    by (simp add: addRandomGalaxy_drawn)
  have 2: "star_offset g k = unit_draw g (4 + 7 * k) * sqrt (galaxy_radius g)
                        * (unit_draw g (5 + 7 * k) * sqrt (galaxy_radius g))"
    by (simp add: star_offset_def)
  have 3: "star_speed_factor g k = unit_draw g (6 + 7 * k) + 1 / 4"
    by (simp add: star_speed_factor_def)
  from 1 2 3 galaxy_ranges [of g] unit_draw_range [of g n] r(1,2) fl(1,2) tg sp
  show ?thesis by blast
qed

theorem addRandomGalaxy_disk_witness:
  "length (fst (addRandomGalaxy (Fin 0) (Fin 0) ([], const_rng RAND_MAX))) = 647
   \<and> galaxy_radius (const_rng RAND_MAX) = 200
   \<and> star_offset (const_rng RAND_MAX) 0 = 200
   \<and> magnitude (vel (drawn_star (vec2d (Fin 0) (Fin 0)) (const_rng RAND_MAX) 0))
       = Fin (sqrt 200 * (5 / 4))"
proof -
  let ?g = "const_rng RAND_MAX"
  note W = addRandomGalaxy_disk [of 0 0 "[]" ?g 0 0]
  have c: "galaxy_count ?g = 647"
    by (simp add: galaxy_count_def const_rng_def RAND_MAX_def)
  have R: "galaxy_radius ?g = 200"
    by (simp add: galaxy_radius_def unit_draw_const_max)
  have o: "star_offset ?g 0 = 200"
    using W by (simp add: unit_draw_const_max R)
  have f: "star_speed_factor ?g 0 = 5 / 4"
    using W by (simp add: unit_draw_const_max)
  have "length (fst (addRandomGalaxy (Fin 0) (Fin 0) ([], ?g))) = 647"
    using W by (simp add: c)
  moreover have "magnitude (vel (drawn_star (vec2d (Fin 0) (Fin 0)) ?g 0))
       = Fin (sqrt 200 * (5 / 4))"
    using W unfolding o f by blast
  ultimately show ?thesis using R o by blast
qed

text \<open>
  C6, as the spec has it, fails in the radial draw: the code multiplies two draws from
  \<open>U(0, sqrt R)\<close>, the spec multiplies the square roots of two draws from \<open>U(0, R)\<close>. On
  the same values of \<^verbatim>\<open>rand()\<close> the two differ.
\<close>

theorem point_radius_not_sqrt_of_uniform:
  "fst (point_radius (Fin 100) (const_rng 1)) = Fin (100 / 2147483647\<^sup>2)
   \<and> fst (point_radius_spec (Fin 100) (const_rng 1)) = Fin (100 / 2147483647)
   \<and> fst (point_radius (Fin 100) (const_rng 1)) \<noteq> fst (point_radius_spec (Fin 100) (const_rng 1))"
proof -
  have le: "Suc 0 \<le> RAND_MAX" by (simp add: RAND_MAX_def)
  have a: "fst (point_radius (Fin 100) (const_rng 1)) = Fin (100 / 2147483647\<^sup>2)"
    by (simp add: point_radius_def sqrt_100 drand_const_rng [OF le] RAND_MAX_def power2_eq_square)
  have nn: "\<not> (100 / 2147483647 :: real) < 0" by simp
  have "fst (point_radius_spec (Fin 100) (const_rng 1))
        = Fin (sqrt (100 / 2147483647) * sqrt (100 / 2147483647))"
    using nn by (simp add: point_radius_spec_def drand_const_rng [OF le] RAND_MAX_def)
  then have b: "fst (point_radius_spec (Fin 100) (const_rng 1)) = Fin (100 / 2147483647)"
    by simp
  have "(100 / 2147483647\<^sup>2 :: real) \<noteq> 100 / 2147483647" by simp
  with a b show ?thesis by simp
qed

text \<open>
  C7, as the code has it: the mass of a new star is 10 divided by the square root of
  the length \<open>r\<close> of its offset as drawn, before the centre is added, in floating-point
  division and with no guard: it is finite when \<open>r\<close> is positive and \<open>+infinity\<close> when
  \<open>r\<close> is 0. The stored position is the rounded sum of offset and centre: around the
  centre (400, 300) an offset shorter than \<open>1 / 65536\<close> is lost, and the star is stored on
  the centre with a finite mass.
\<close>

theorem addRandomGalaxy_mass:
  "fst (addRandomGalaxy (Fin cx) (Fin cy) (stars, g))
     = stars @ map (drawn_star (vec2d (Fin cx) (Fin cy)) g) [0..<galaxy_count g]
   \<and> 0 \<le> star_offset g k
   \<and> magnitude (vec2d (Fin (star_offset g k * sin (star_angle g k)))
                       (Fin (star_offset g k * cos (star_angle g k)))) = Fin (star_offset g k)
   \<and> pos (drawn_star (vec2d (Fin cx) (Fin cy)) g k)
       = vadd32 (vec2d (Fin (star_offset g k * sin (star_angle g k)))
                       (Fin (star_offset g k * cos (star_angle g k))))
                (vec2d (Fin cx) (Fin cy))
   \<and> mass (drawn_star (vec2d (Fin cx) (Fin cy)) g k)
       = fdiv (Fin 10) (fsqrt (magnitude (vec2d (Fin (star_offset g k * sin (star_angle g k)))
                                                (Fin (star_offset g k * cos (star_angle g k))))))
   \<and> mass (drawn_star (vec2d (Fin cx) (Fin cy)) g k)
       = (if star_offset g k = 0 then PInf else Fin (10 / sqrt (star_offset g k)))
   \<and> (0 < star_offset g k \<and> star_offset g k < 1 / 65536 \<longrightarrow>
        pos (drawn_star (vec2d (Fin 400) (Fin 300)) g k) = vec2d (Fin 400) (Fin 300)
        \<and> mass (drawn_star (vec2d (Fin 400) (Fin 300)) g k) = Fin (10 / sqrt (star_offset g k)))"
proof -
  note r = star_ranges(1) [of g k]
  note fl = make_star_fields [OF r, of "vec2d (Fin cx) (Fin cy)" "galaxy_direction g"
      "star_angle g k" "star_speed_factor g k", folded drawn_star_def]
  note ms = make_star_mass [OF r, of _ "galaxy_direction g"
      "star_angle g k" "star_speed_factor g k", folded drawn_star_def]
  have 1: "fst (addRandomGalaxy (Fin cx) (Fin cy) (stars, g))
     = stars @ map (drawn_star (vec2d (Fin cx) (Fin cy)) g) [0..<galaxy_count g]"
    by (simp add: addRandomGalaxy_drawn)
  have 2: "pos (drawn_star (vec2d (Fin 400) (Fin 300)) g k) = vec2d (Fin 400) (Fin 300)
        \<and> mass (drawn_star (vec2d (Fin 400) (Fin 300)) g k) = Fin (10 / sqrt (star_offset g k))"
    if h: "0 < star_offset g k \<and> star_offset g k < 1 / 65536"
  proof -
    from h have "pos (drawn_star (vec2d (Fin 400) (Fin 300)) g k) = vec2d (Fin 400) (Fin 300)"
      unfolding drawn_star_def by (intro make_star_on_centre) simp_all
    moreover from h have "mass (drawn_star (vec2d (Fin 400) (Fin 300)) g k)
        = Fin (10 / sqrt (star_offset g k))"
      using ms [of "vec2d (Fin 400) (Fin 300)"] by simp
    ultimately show ?thesis ..
  qed
  from 1 r offset_magnitude [OF r, of "star_angle g k"] fl(1,3) ms [of "vec2d (Fin cx) (Fin cy)"] 2
  show ?thesis by blast
qed

theorem addRandomGalaxy_mass_witness:
  "star_offset ((const_rng 0)(4 := 1, 5 := 1)) 0 = 50 / 2147483647\<^sup>2
   \<and> pos (hd (fst (addRandomGalaxy (Fin 400) (Fin 300) ([], (const_rng 0)(4 := 1, 5 := 1)))))
       = vec2d (Fin 400) (Fin 300)
   \<and> mass (hd (fst (addRandomGalaxy (Fin 400) (Fin 300) ([], (const_rng 0)(4 := 1, 5 := 1)))))
       = Fin (10 / sqrt (50 / 2147483647\<^sup>2))"
proof -
  let ?g = "(const_rng 0)(4 := 1, 5 := 1)"
  let ?C = "vec2d (Fin 400) (Fin 300)"
  note W = addRandomGalaxy_mass [of 400 300 "[]" ?g 0]
  have g: "?g 1 = 0" "?g 4 = 1" "?g 5 = 1" "?g 0 = 0"
    by (simp_all add: const_rng_apply)
  have u: "unit_draw ?g 1 = 0" "unit_draw ?g 4 = 1 / 2147483647" "unit_draw ?g 5 = 1 / 2147483647"
    unfolding unit_draw_def g by (simp_all add: RAND_MAX_def)
  have R: "galaxy_radius ?g = 50"
    unfolding galaxy_radius_def u by simp
  have i: "4 + 7 * (0::nat) = 4" "5 + 7 * (0::nat) = 5"
    by simp_all
  have "star_offset ?g 0 = 1 / 2147483647 * sqrt 50 * (1 / 2147483647 * sqrt 50)"
    unfolding star_offset_def R i u ..
  also have "\<dots> = (sqrt 50 * sqrt 50) / 2147483647\<^sup>2"
    by (simp add: power2_eq_square)
  also have "\<dots> = 50 / 2147483647\<^sup>2" by simp
  finally have o: "star_offset ?g 0 = 50 / 2147483647\<^sup>2" .
  have h: "0 < star_offset ?g 0 \<and> star_offset ?g 0 < 1 / 65536"
    unfolding o by simp
  have c: "galaxy_count ?g = 500"
    unfolding galaxy_count_def g by simp
  have "fst (addRandomGalaxy (Fin 400) (Fin 300) ([], ?g))
        = [] @ map (drawn_star ?C ?g) [0..<galaxy_count ?g]"
    using W by blast
  then have hd: "hd (fst (addRandomGalaxy (Fin 400) (Fin 300) ([], ?g))) = drawn_star ?C ?g 0"
    unfolding c by (simp add: hd_map)
  from W h have "pos (drawn_star ?C ?g 0) = ?C
      \<and> mass (drawn_star ?C ?g 0) = Fin (10 / sqrt (star_offset ?g 0))"
    by blast
  then show ?thesis unfolding hd o using o by simp
qed

text \<open>
  C7, as the spec has it, fails: when every draw returns 0, all 500 stars lie on the
  centre and have infinite mass.
\<close>

theorem addRandomGalaxy_infinite_mass:
  "fst (addRandomGalaxy (Fin 0) (Fin 0) ([], const_rng 0))
     = replicate 500 (new_star PInf (vec2d (Fin 0) (Fin 0)) (vec2d (Fin 0) (Fin 0)))
   \<and> mass (new_star PInf (vec2d (Fin 0) (Fin 0)) (vec2d (Fin 0) (Fin 0))) = PInf"
proof -
  have c: "galaxy_count (const_rng 0) = 500"
    by (simp add: galaxy_count_def const_rng_apply)
  have "map (drawn_star (vec2d (Fin 0) (Fin 0)) (const_rng 0)) [0..<500]
        = map (\<lambda>k. new_star PInf (vec2d (Fin 0) (Fin 0)) (vec2d (Fin 0) (Fin 0))) [0..<500]"
    by (rule map_cong) (simp_all add: drawn_star_zero)
  also have "\<dots> = replicate 500 (new_star PInf (vec2d (Fin 0) (Fin 0)) (vec2d (Fin 0) (Fin 0)))"
    by (simp add: map_replicate_trivial)
  finally show ?thesis
    by (simp add: addRandomGalaxy_drawn c new_star_def)
qed

section \<open>Properties of the barrier protocol\<close>

lemma round_inv_init: "round_inv round_init"
  by (simp add: round_inv_def round_init_def)

lemma filter_length_all:
  "length (filter P xs) = length xs \<Longrightarrow> \<forall>x\<in>set xs. P x"
proof (induction xs)
  case Nil
  then show ?case by simp
next
  case (Cons x xs)
  have le: "length (filter P xs) \<le> length xs" by (rule length_filter_le)
  show ?case
  proof (cases "P x")
    case True
    with Cons.prems have "length (filter P xs) = length xs" by simp
    with Cons.IH True show ?thesis by simp
  next
    case False
    with Cons.prems have "length (filter P xs) = Suc (length xs)" by simp
    with le show ?thesis by simp
  qed
qed

lemma in_barrier_full:
  assumes "length (workers s) = NUM_WORKER_THREADS" "in_barrier s = NUM_WORKER_THREADS + 1"
  shows "coord_waiting s" and "\<forall>k<NUM_WORKER_THREADS. workers s ! k = WWait"
proof -
  have le: "length (filter (\<lambda>p. p = WWait) (workers s)) \<le> NUM_WORKER_THREADS"
    using length_filter_le [of "\<lambda>p. p = WWait" "workers s"] unfolding assms(1) .
  show cw: "coord_waiting s"
  proof (rule ccontr)
    assume "\<not> coord_waiting s"
    then have "in_barrier s = length (filter (\<lambda>p. p = WWait) (workers s))"
      by (simp add: in_barrier_def)
    with assms(2) le show False by simp
  qed
  have "in_barrier s = length (filter (\<lambda>p. p = WWait) (workers s)) + 1"
    using cw by (simp add: in_barrier_def)
  with assms have "length (filter (\<lambda>p. p = WWait) (workers s)) = length (workers s)"
    by simp
  then have "\<forall>p\<in>set (workers s). p = WWait"
    by (rule filter_length_all)
  then show "\<forall>k<NUM_WORKER_THREADS. workers s ! k = WWait"
    using assms(1) by simp
qed

lemma round_inv_release:
  assumes inv: "round_inv s" and cw: "coord_waiting s"
    and all: "\<forall>k<NUM_WORKER_THREADS. workers s ! k = WWait"
  shows "round_inv (barrier_release s)"
proof -
  from inv have len: "length (workers s) = NUM_WORKER_THREADS"
      "length (passes s) = NUM_WORKER_THREADS"
    and rel: "releases s = 2 * frame s + (if coord s = CMid \<or> coord s = CWait2 then 1 else 0)"
    and p: "\<forall>k<NUM_WORKER_THREADS.
            passes s ! k + (if workers s ! k = WCompute then 1 else 0) = releases s"
    unfolding round_inv_def by blast+
  have p': "passes s ! k = releases s" if "k < NUM_WORKER_THREADS" for k
    using p all that by simp
  have w': "map (\<lambda>p. if p = WWait then WCompute else p) (workers s) ! k = WCompute"
    if "k < NUM_WORKER_THREADS" for k
    using all len(1) that by simp
  from cw consider "coord s = CWait1" | "coord s = CWait2"
    unfolding coord_waiting_def by blast
  then show ?thesis
  proof cases
    case 1
    then have r: "releases s = 2 * frame s" using rel by simp
    show ?thesis
      unfolding round_inv_def barrier_release_def
      using 1 r len p' w' by simp
  next
    case 2
    then have r: "releases s = 2 * frame s + 1" using rel by simp
    show ?thesis
      unfolding round_inv_def barrier_release_def
      using 2 r len p' w' by simp
  qed
qed

lemma round_inv_arrive:
  assumes "round_inv s"
  shows "round_inv (barrier_arrive s)"
proof (cases "in_barrier s = NUM_WORKER_THREADS + 1")
  case False
  then show ?thesis using assms by (simp add: barrier_arrive_def)
next
  case True
  from assms have len: "length (workers s) = NUM_WORKER_THREADS"
    unfolding round_inv_def by blast
  note full = in_barrier_full [OF len True]
  show ?thesis
    using True round_inv_release [OF assms full] by (simp add: barrier_arrive_def)
qed

lemma round_inv_coord:
  assumes "round_inv s" "coord s = CFrame \<and> c = CWait1 \<or> coord s = CMid \<and> c = CWait2"
  shows "round_inv (s\<lparr>coord := c\<rparr>)"
  using assms unfolding round_inv_def by auto

lemma round_inv_passes:
  "round_inv s \<Longrightarrow> j < NUM_WORKER_THREADS \<Longrightarrow>
   passes s ! j + (if workers s ! j = WCompute then 1 else 0) = releases s"
  unfolding round_inv_def by blast

lemma round_inv_length:
  "round_inv s \<Longrightarrow> length (workers s) = NUM_WORKER_THREADS"
  "round_inv s \<Longrightarrow> length (passes s) = NUM_WORKER_THREADS"
  unfolding round_inv_def by blast+

lemma round_inv_worker_wait:
  assumes inv: "round_inv s" and k: "k < length (workers s)" and top: "workers s ! k = WTop"
  shows "round_inv (s\<lparr>workers := (workers s)[k := WWait]\<rparr>)"
proof -
  have "passes s ! j + (if (workers s)[k := WWait] ! j = WCompute then 1 else 0) = releases s"
    if "j < NUM_WORKER_THREADS" for j
  proof (cases "j = k")
    case True
    then show ?thesis using round_inv_passes [OF inv that] k top by simp
  next
    case False
    then show ?thesis using round_inv_passes [OF inv that] by simp
  qed
  then show ?thesis
    using inv unfolding round_inv_def by simp
qed

lemma round_inv_worker_done:
  assumes inv: "round_inv s" and k: "k < length (workers s)" and c: "workers s ! k = WCompute"
  shows "round_inv (s\<lparr>workers := (workers s)[k := WTop],
                      passes := (passes s)[k := Suc (passes s ! k)]\<rparr>)"
proof -
  from inv have len: "length (workers s) = NUM_WORKER_THREADS"
      "length (passes s) = NUM_WORKER_THREADS"
    unfolding round_inv_def by blast+
  have "(passes s)[k := Suc (passes s ! k)] ! j
          + (if (workers s)[k := WTop] ! j = WCompute then 1 else 0) = releases s"
    if "j < NUM_WORKER_THREADS" for j
  proof (cases "j = k")
    case True
    have "passes s ! k + 1 = releases s"
      using round_inv_passes [OF inv, of k] k c len by simp
    then show ?thesis using True k len by simp
  next
    case False
    then show ?thesis using round_inv_passes [OF inv that] by simp
  qed
  then show ?thesis
    using inv unfolding round_inv_def by simp
qed

lemma round_inv_step:
  assumes "round_inv s"
  shows "round_inv (round_step s a)"
proof (cases a)
  case Main
  show ?thesis
  proof (cases "coord s")
    case CFrame
    then have "round_inv (barrier_arrive (s\<lparr>coord := CWait1\<rparr>))"
      using assms by (intro round_inv_arrive round_inv_coord) simp_all
    then show ?thesis using Main CFrame by simp
  next
    case CMid
    then have "round_inv (barrier_arrive (s\<lparr>coord := CWait2\<rparr>))"
      using assms by (intro round_inv_arrive round_inv_coord) simp_all
    then show ?thesis using Main CMid by simp
  next
    case CWait1
    then show ?thesis using Main assms by simp
  next
    case CWait2
    then show ?thesis using Main assms by simp
  qed
next
  case (Worker k)
  show ?thesis
  proof (cases "k < length (workers s)")
    case False
    then show ?thesis using Worker assms by simp
  next
    case True
    show ?thesis
    proof (cases "workers s ! k")
      case WWait
      then show ?thesis using Worker True assms by simp
    next
      case WTop
      have "round_inv (barrier_arrive (s\<lparr>workers := (workers s)[k := WWait]\<rparr>))"
        by (intro round_inv_arrive round_inv_worker_wait assms True WTop)
      then show ?thesis using Worker True WTop by simp
    next
      case WCompute
      have "round_inv (s\<lparr>workers := (workers s)[k := WTop],
                          passes := (passes s)[k := Suc (passes s ! k)]\<rparr>)"
        by (intro round_inv_worker_done assms True WCompute)
      then show ?thesis using Worker True WCompute by simp
    qed
  qed
qed

lemma round_inv_run: "round_inv (round_run sched)"
proof (induction sched rule: rev_induct)
  case Nil
  then show ?case by (simp add: round_run_def round_inv_init)
next
  case (snoc a sched)
  then show ?case
    using round_inv_step [of "round_run sched" a] by (simp add: round_run_def)
qed

lemma frame_barrier_release:
  "frame (barrier_arrive s) \<noteq> frame s \<Longrightarrow>
   in_barrier s = NUM_WORKER_THREADS + 1 \<and> coord s = CWait2
   \<and> barrier_arrive s = barrier_release s"
  unfolding barrier_arrive_def barrier_release_def
  by (auto split: if_splits)

lemma frame_step:
  assumes inv: "round_inv s" and ch: "frame (round_step s a) \<noteq> frame s"
  shows "frame (round_step s a) = Suc (frame s)
    \<and> coord (round_step s a) = CFrame
    \<and> passes (round_step s a) = passes s
    \<and> (\<forall>k<NUM_WORKER_THREADS. workers (round_step s a) ! k = WCompute)
    \<and> (a = Main \<and> coord s = CMid \<or> coord s = CWait2)
    \<and> (\<forall>k<NUM_WORKER_THREADS. workers s ! k = WWait \<or> a = Worker k \<and> workers s ! k = WTop)"
proof -
  have rel: "frame (barrier_release t) = Suc (frame t) \<and> coord (barrier_release t) = CFrame
      \<and> passes (barrier_release t) = passes t
      \<and> (\<forall>k<NUM_WORKER_THREADS. workers (barrier_release t) ! k = WCompute)"
    if "coord t = CWait2" "\<forall>k<NUM_WORKER_THREADS. workers t ! k = WWait"
      "length (workers t) = NUM_WORKER_THREADS" for t
    using that by (simp add: barrier_release_def)
  have arr: "frame (barrier_arrive t) = Suc (frame t) \<and> coord (barrier_arrive t) = CFrame
      \<and> passes (barrier_arrive t) = passes t
      \<and> (\<forall>k<NUM_WORKER_THREADS. workers (barrier_arrive t) ! k = WCompute)
      \<and> coord t = CWait2 \<and> (\<forall>k<NUM_WORKER_THREADS. workers t ! k = WWait)"
    if "frame (barrier_arrive t) \<noteq> frame t" "length (workers t) = NUM_WORKER_THREADS" for t
  proof -
    note f = frame_barrier_release [OF that(1)]
    note full = in_barrier_full [OF that(2) f [THEN conjunct1]]
    from rel [OF f [THEN conjunct2, THEN conjunct1] full(2) that(2)] f full(2)
    show ?thesis by simp
  qed
  note len = round_inv_length [OF inv]
  show ?thesis
  proof (cases a)
    case Main
    show ?thesis
    proof (cases "coord s")
      case CFrame
      with Main ch have "frame (barrier_arrive (s\<lparr>coord := CWait1\<rparr>)) \<noteq> frame (s\<lparr>coord := CWait1\<rparr>)"
        by simp
      from frame_barrier_release [OF this] show ?thesis by simp
    next
      case CMid
      let ?t = "s\<lparr>coord := CWait2\<rparr>"
      from Main ch CMid have "frame (barrier_arrive ?t) \<noteq> frame ?t" by simp
      from arr [OF this] len(1) show ?thesis using Main CMid by simp
    next
      case CWait1
      with Main ch show ?thesis by simp
    next
      case CWait2
      with Main ch show ?thesis by simp
    qed
  next
    case (Worker k)
    show ?thesis
    proof (cases "k < length (workers s)")
      case False
      with Worker ch show ?thesis by simp
    next
      case True
      show ?thesis
      proof (cases "workers s ! k")
        case WWait
        with Worker True ch show ?thesis by simp
      next
        case WCompute
        with Worker True ch show ?thesis by simp
      next
        case WTop
        let ?t = "s\<lparr>workers := (workers s)[k := WWait]\<rparr>"
        from Worker True WTop ch have "frame (barrier_arrive ?t) \<noteq> frame ?t" by simp
        from arr [OF this] len(1)
        have a: "frame (barrier_arrive ?t) = Suc (frame s)" "coord (barrier_arrive ?t) = CFrame"
          "passes (barrier_arrive ?t) = passes s"
          "\<forall>j<NUM_WORKER_THREADS. workers (barrier_arrive ?t) ! j = WCompute"
          "coord s = CWait2" "\<forall>j<NUM_WORKER_THREADS. (workers s)[k := WWait] ! j = WWait"
          by simp_all
        have "workers s ! j = WWait \<or> a = Worker k \<and> workers s ! j = WTop \<and> j = k"
          if "j < NUM_WORKER_THREADS" for j
          using a(6) that Worker WTop by (cases "j = k") auto
        then show ?thesis
          using a(1-5) Worker True WTop by auto
      qed
    qed
  qed
qed

text \<open>
  C5: the coordinator's two arrivals follow one another, and a step in which the
  coordinator returns from \<^verbatim>\<open>updateStars\<close> (the count of frames changes) is the release
  of its second arrival: the barrier had been released \<open>2 * frame + 1\<close> times, last for
  the coordinator's first arrival of this frame, every worker is blocked in the barrier
  or arrives in this very step, and has completed as many passes as there were
  releases, so also the pass that the first arrival set off.
\<close>

theorem second_arrival_returns_after_round:
  assumes "frame (round_step (round_run sched) a) \<noteq> frame (round_run sched)"
    and "k < NUM_WORKER_THREADS"
  shows "(a = Main \<and> coord (round_run sched) = CMid \<or> coord (round_run sched) = CWait2)
    \<and> releases (round_run sched) = 2 * frame (round_run sched) + 1
    \<and> (workers (round_run sched) ! k = WWait
        \<or> a = Worker k \<and> workers (round_run sched) ! k = WTop)
    \<and> passes (round_run sched) ! k = releases (round_run sched)
    \<and> passes (round_step (round_run sched) a) ! k = releases (round_run sched)
    \<and> frame (round_step (round_run sched) a) = Suc (frame (round_run sched))"
proof -
  let ?s = "round_run sched"
  have inv: "round_inv ?s" by (rule round_inv_run)
  note f = frame_step [OF inv assms(1)]
  from f have c: "a = Main \<and> coord ?s = CMid \<or> coord ?s = CWait2" by blast
  then have r: "releases ?s = 2 * frame ?s + 1"
    using inv unfolding round_inv_def by auto
  from f assms(2) have w: "workers ?s ! k = WWait \<or> a = Worker k \<and> workers ?s ! k = WTop"
    by blast
  then have "workers ?s ! k \<noteq> WCompute" by auto
  then have p: "passes ?s ! k = releases ?s"
    using round_inv_passes [OF inv assms(2)] by simp
  from f have "passes (round_step ?s a) = passes ?s" by blast
  then have p': "passes (round_step ?s a) ! k = releases ?s" using p by simp
  from f have "frame (round_step ?s a) = Suc (frame ?s)" by blast
  with c r w p p' show ?thesis by blast
qed

theorem second_arrival_returns_after_round_witness:
  "frame (round_step (round_run [Worker 0, Worker 1, Worker 2, Worker 3, Main, Main,
       Worker 0, Worker 0, Worker 1, Worker 1, Worker 2, Worker 2, Worker 3]) (Worker 3))
     \<noteq> frame (round_run [Worker 0, Worker 1, Worker 2, Worker 3, Main, Main,
       Worker 0, Worker 0, Worker 1, Worker 1, Worker 2, Worker 2, Worker 3])
   \<and> 0 < NUM_WORKER_THREADS
   \<and> coord (round_run [Worker 0, Worker 1, Worker 2, Worker 3, Main, Main,
       Worker 0, Worker 0, Worker 1, Worker 1, Worker 2, Worker 2, Worker 3]) = CWait2
   \<and> passes (round_step (round_run [Worker 0, Worker 1, Worker 2, Worker 3, Main, Main,
       Worker 0, Worker 0, Worker 1, Worker 1, Worker 2, Worker 2, Worker 3]) (Worker 3)) ! 0 = 1"
proof -
  let ?S = "[Worker 0, Worker 1, Worker 2, Worker 3, Main, Main,
       Worker 0, Worker 0, Worker 1, Worker 1, Worker 2, Worker 2, Worker 3]"
  have h1: "frame (round_step (round_run ?S) (Worker 3)) \<noteq> frame (round_run ?S)"
    by code_simp
  have h2: "0 < NUM_WORKER_THREADS"
    by (simp add: NUM_WORKER_THREADS_def)
  note W = second_arrival_returns_after_round [OF h1 h2]
  have e: "releases (round_run ?S) = 1" "coord (round_run ?S) = CWait2"
    by code_simp+
  from W e h1 h2 show ?thesis by simp
qed

text \<open>
  The release that lets the coordinator return lets the workers go as well: their
  loop has a single wait, so they start a further pass while the coordinator is back
  in the frame loop.
\<close>

lemma workers_compute_during_frame_work:
  "coord (round_run [Worker 0, Worker 1, Worker 2, Worker 3, Main, Main,
       Worker 0, Worker 0, Worker 1, Worker 1, Worker 2, Worker 2, Worker 3, Worker 3]) = CFrame
   \<and> workers (round_run [Worker 0, Worker 1, Worker 2, Worker 3, Main, Main,
       Worker 0, Worker 0, Worker 1, Worker 1, Worker 2, Worker 2, Worker 3, Worker 3])
     = [WCompute, WCompute, WCompute, WCompute]"
  by code_simp

end
